theory Spec2Isabelle
  imports
    Complex_Main
    "HOL-Library.Sublist"
    "HOL-Library.Char_ord"
    "HOL-Library.List_Lexorder"
    "HOL-Library.AList"
    "HOL-Library.Multiset"
begin

section \<open>tabasco: time based source control\<close>

text \<open>
  A shallow embedding of \<^verbatim>\<open>tabasco.py\<close>: the change detector and snapshot store of class
  \<^verbatim>\<open>Monitor\<close> and the resolver, revert and remove operations of class \<^verbatim>\<open>SC\<close>.

  Scope of the model.
  \<^item> A directory is an association list from entry names to nodes, in the order
    \<^verbatim>\<open>os.listdir\<close> yields them; a node is a regular file (its bytes) or a directory.
    Symbolic links, special files, permissions and modification times are not modelled.
  \<^item> The two shelves \<^verbatim>\<open>.tbsc/versions\<close> and \<^verbatim>\<open>.tbsc/last\<close> are components of the state
    and not nodes of the tree; a shelf is an association list in the order in which the
    database iterates its keys. Opening a shelf fails when \<^verbatim>\<open>.tbsc\<close> is not a directory.
  \<^item> Strings are byte strings, compared lexicographically by character code as Python
    compares \<^verbatim>\<open>str\<close>.
  \<^item> \<^verbatim>\<open>timedelta.total_seconds()\<close> is the exact rational number of seconds; Python rounds
    it to a double, which agrees with the exact comparison against an integer frequency
    below \<open>2 ^ 34\<close> seconds.
  \<^item> The checksum of the tree (\<^verbatim>\<open>dirhash\<close>) and the clock are inputs of \<^verbatim>\<open>run\<close>.
\<close>

subsection \<open>Errors\<close>

text \<open>
  The exceptions the modelled code can raise. \<open>OSError\<close> stands for the subclasses of
  \<^verbatim>\<open>OSError\<close> other than \<^verbatim>\<open>FileExistsError\<close> (\<^verbatim>\<open>FileNotFoundError\<close>, \<^verbatim>\<open>NotADirectoryError\<close>,
  \<^verbatim>\<open>IsADirectoryError\<close>, the errors of \<^verbatim>\<open>dbm\<close>), which \<^verbatim>\<open>run\<close> does not catch.
\<close>

datatype error =
    IndexError
  | ValueError
  | KeyError
  | TypeError
  | AttributeError
  | FileExistsError
  | RuntimeError
  | OSError

subsection \<open>Dates\<close>

text \<open>A naive \<^verbatim>\<open>datetime.datetime\<close>, by its fields.\<close>

record datetime =
  year :: int
  month :: int
  day :: int
  hour :: int
  minute :: int
  second :: int
  microsecond :: int

definition is_leap :: "int \<Rightarrow> bool" where
  "is_leap y = (y mod 4 = 0 \<and> (y mod 100 \<noteq> 0 \<or> y mod 400 = 0))"

definition days_before_year :: "int \<Rightarrow> int" where
  "days_before_year y =
     (let y1 = y - 1 in y1 * 365 + y1 div 4 - y1 div 100 + y1 div 400)"

definition DAYS_BEFORE_MONTH :: "int list" where
  "DAYS_BEFORE_MONTH = [-1, 0, 31, 59, 90, 120, 151, 181, 212, 243, 273, 304, 334]"

definition days_before_month :: "int \<Rightarrow> int \<Rightarrow> int" where
  "days_before_month y m =
     DAYS_BEFORE_MONTH ! nat m + (if m > 2 \<and> is_leap y then 1 else 0)"

definition toordinal :: "datetime \<Rightarrow> int" where
  "toordinal d = days_before_year (year d) + days_before_month (year d) (month d) + day d"

text \<open>
  \<^verbatim>\<open>(a - b).total_seconds()\<close>: the difference of two naive datetimes is a number of
  days, seconds and microseconds; \<^verbatim>\<open>total_seconds\<close> divides the microseconds by \<open>10 ^ 6\<close>.
\<close>

definition timedelta_microseconds :: "datetime \<Rightarrow> datetime \<Rightarrow> int" where
  "timedelta_microseconds a b =
     (let days = toordinal a - toordinal b;
          secs1 = second a + minute a * 60 + hour a * 3600;
          secs2 = second b + minute b * 60 + hour b * 3600
      in ((days * 86400 + (secs1 - secs2)) * 1000000 + (microsecond a - microsecond b)))"

definition total_seconds :: "datetime \<Rightarrow> datetime \<Rightarrow> rat" where
  "total_seconds a b = of_int (timedelta_microseconds a b) / 1000000"

text \<open>
  \<^verbatim>\<open>now.strftime("%Y.%m.%d - %H.%M.%S")\<close>: the year on four digits, the other fields on
  two, zero padded.
\<close>

definition digit :: "int \<Rightarrow> char" where
  "digit n = ''0123456789'' ! nat (n mod 10)"

definition pad2 :: "int \<Rightarrow> string" where
  "pad2 n = [digit (n div 10), digit n]"

definition pad4 :: "int \<Rightarrow> string" where
  "pad4 n = [digit (n div 1000), digit (n div 100), digit (n div 10), digit n]"

definition version_name :: "datetime \<Rightarrow> string" where
  "version_name now =
     pad4 (year now) @ ''.'' @ pad2 (month now) @ ''.'' @ pad2 (day now) @ '' - '' @
     pad2 (hour now) @ ''.'' @ pad2 (minute now) @ ''.'' @ pad2 (second now)"

subsection \<open>The working directory and the persisted state\<close>

datatype node = File string | Dir "(string \<times> node) list"

text \<open>\<^verbatim>\<open>Version = namedtuple('Version', ['checksum', 'time', 'name'])\<close>\<close>

record version =
  checksum :: string
  time :: datetime
  name :: string

text \<open>The shelf \<^verbatim>\<open>last\<close>: each of its three keys is present or not.\<close>

record last_state =
  last_checksum :: "string option"
  last_time :: "datetime option"
  last_name :: "string option"

text \<open>
  \<open>directory\<close> lists the top-level entries of the monitored directory, the metadata
  directory \<^verbatim>\<open>.tbsc\<close> among them; the children of \<^verbatim>\<open>.tbsc\<close> are the snapshot copies.
\<close>

record state =
  directory :: "(string \<times> node) list"
  versions_db :: "(string \<times> version) list"
  last_db :: last_state

definition tbsc :: string where
  "tbsc = ''.tbsc''"

definition tbsc_is_dir :: "(string \<times> node) list \<Rightarrow> bool" where
  "tbsc_is_dir d = (case map_of d tbsc of Some (Dir _) \<Rightarrow> True | _ \<Rightarrow> False)"

text \<open>
  \<^verbatim>\<open>if not self.tabasco_directory.exists(): self.tabasco_directory.mkdir()\<close>, the first
  statement of \<^verbatim>\<open>Monitor.run\<close> and the last of \<^verbatim>\<open>SC.__init__\<close>.
\<close>

definition ensure_tabasco_directory :: "state \<Rightarrow> state" where
  "ensure_tabasco_directory s =
     (case map_of (directory s) tbsc of
        None \<Rightarrow> s\<lparr>directory := directory s @ [(tbsc, Dir [])]\<rparr>
      | Some _ \<Rightarrow> s)"

subsection \<open>The change detector\<close>

text \<open>
  \<^verbatim>\<open>Monitor._should_backup\<close>. A shelf with a checksum and no time makes \<^verbatim>\<open>now - None\<close>
  raise \<^verbatim>\<open>TypeError\<close>; a missing checksum reads as \<^verbatim>\<open>None\<close>, which differs from every string.
\<close>

definition should_backup :: "int \<Rightarrow> state \<Rightarrow> datetime \<Rightarrow> string \<Rightarrow> error + bool" where
  "should_backup frequency s now c =
     (if \<not> tbsc_is_dir (directory s) then Inl OSError
      else
        (case (last_checksum (last_db s), last_time (last_db s)) of
           (None, None) \<Rightarrow> Inr True
         | (Some _, None) \<Rightarrow> Inl TypeError
         | (last_c, Some last_access_time) \<Rightarrow>
             (let is_old = (of_int frequency \<le> total_seconds now last_access_time);
                  is_outdated = (Some c \<noteq> last_c)
              in Inr (is_old \<and> is_outdated))))"

text \<open>\<^verbatim>\<open>Monitor._update_time_and_hash\<close>\<close>

definition update_time_and_hash :: "datetime \<Rightarrow> string \<Rightarrow> state \<Rightarrow> state" where
  "update_time_and_hash now c s =
     s\<lparr>last_db := \<lparr>last_checksum = Some c, last_time = Some now,
                    last_name = Some (version_name now)\<rparr>\<rparr>"

subsection \<open>The snapshot store\<close>

text \<open>
  \<^verbatim>\<open>shutil.copy2(src, dst)\<close> of the regular file \<open>filename\<close> with the given bytes, where
  \<open>dst\<close> exists: into a directory it writes \<open>dst/filename\<close>, replacing a file of that name
  and failing on a directory of that name; onto a regular file it replaces the file.
\<close>

definition copy2 :: "string \<Rightarrow> string \<Rightarrow> node \<Rightarrow> error + node" where
  "copy2 filename bytes dst =
     (case dst of
        Dir entries \<Rightarrow>
          (case map_of entries filename of
             Some (Dir _) \<Rightarrow> Inl OSError
           | _ \<Rightarrow> Inr (Dir (AList.update filename (File bytes) entries)))
      | File _ \<Rightarrow> Inr (File bytes))"

text \<open>
  \<^verbatim>\<open>shutil.copytree(src, dst.joinpath(filename))\<close> of the directory \<open>filename\<close> with the
  given entries, where \<open>dst\<close> exists: the new directory must not exist yet.
\<close>

definition copytree :: "string \<Rightarrow> (string \<times> node) list \<Rightarrow> node \<Rightarrow> error + node" where
  "copytree filename sub dst =
     (case dst of
        Dir entries \<Rightarrow>
          (case map_of entries filename of
             Some _ \<Rightarrow> Inl FileExistsError
           | None \<Rightarrow> Inr (Dir (AList.update filename (Dir sub) entries)))
      | File _ \<Rightarrow> Inl OSError)"

text \<open>The node at \<^verbatim>\<open>.tbsc/<vn>\<close>, and its replacement.\<close>

definition version_directory :: "(string \<times> node) list \<Rightarrow> string \<Rightarrow> node option" where
  "version_directory d vn =
     (case map_of d tbsc of Some (Dir snapshots) \<Rightarrow> map_of snapshots vn | _ \<Rightarrow> None)"

definition put_version_directory ::
  "string \<Rightarrow> node \<Rightarrow> (string \<times> node) list \<Rightarrow> (string \<times> node) list" where
  "put_version_directory vn nd d =
     (case map_of d tbsc of
        Some (Dir snapshots) \<Rightarrow> AList.update tbsc (Dir (AList.update vn nd snapshots)) d
      | _ \<Rightarrow> d)"

text \<open>
  \<^verbatim>\<open>if not version_directory.exists(): version_directory.mkdir(parents=True)\<close>
\<close>

definition mkdir_version_directory ::
  "string \<Rightarrow> (string \<times> node) list \<Rightarrow> error + (string \<times> node) list" where
  "mkdir_version_directory vn d =
     (if version_directory d vn \<noteq> None then Inr d
      else
        (case map_of d tbsc of
           None \<Rightarrow> Inr (d @ [(tbsc, Dir [(vn, Dir [])])])
         | Some (Dir _) \<Rightarrow> Inr (put_version_directory vn (Dir []) d)
         | Some (File _) \<Rightarrow> Inl OSError))"

text \<open>
  The loop of \<^verbatim>\<open>Monitor._commit\<close> over \<^verbatim>\<open>os.listdir(str(self.directory))\<close>. It reads the
  top-level entries \<open>d\<close> and writes the version directory \<open>dst\<close>; an exception leaves what
  was copied so far.
\<close>

fun commit_loop ::
  "string list \<Rightarrow> (string \<times> node) list \<Rightarrow> node \<Rightarrow> node \<times> (error + unit)" where
  "commit_loop [] d dst = (dst, Inr ())"
| "commit_loop (filename # rest) d dst =
     (if sublist tbsc filename then commit_loop rest d dst
      else
        (case map_of d filename of
           Some (File bytes) \<Rightarrow>
             (case copy2 filename bytes dst of
                Inl e \<Rightarrow> (dst, Inl e)
              | Inr dst' \<Rightarrow> commit_loop rest d dst')
         | Some (Dir sub) \<Rightarrow>
             (case copytree filename sub dst of
                Inl e \<Rightarrow> (dst, Inl e)
              | Inr dst' \<Rightarrow> commit_loop rest d dst')
         | None \<Rightarrow> commit_loop rest d dst))"

text \<open>\<^verbatim>\<open>Monitor._commit\<close>, for the version directory \<^verbatim>\<open>.tbsc/<vn>\<close>.\<close>

definition commit ::
  "string \<Rightarrow> (string \<times> node) list \<Rightarrow> (string \<times> node) list \<times> (error + unit)" where
  "commit vn d =
     (case mkdir_version_directory vn d of
        Inl e \<Rightarrow> (d, Inl e)
      | Inr d1 \<Rightarrow>
          (case version_directory d1 vn of
             None \<Rightarrow> (d1, Inl OSError)
           | Some dst \<Rightarrow>
               (case commit_loop (map fst d1) d1 dst of
                  (dst', r) \<Rightarrow> (put_version_directory vn dst' d1, r))))"

text \<open>
  \<^verbatim>\<open>Monitor._backup\<close>: the record is stored under the version name, replacing a record
  already stored under it, and then the tree is copied.
\<close>

definition backup :: "datetime \<Rightarrow> string \<Rightarrow> state \<Rightarrow> state \<times> (error + unit)" where
  "backup now c s =
     (if \<not> tbsc_is_dir (directory s) then (s, Inl OSError)
      else
        (let vn = version_name now;
             s1 = s\<lparr>versions_db :=
                      AList.update vn \<lparr>checksum = c, time = now, name = vn\<rparr> (versions_db s)\<rparr>
         in case commit vn (directory s1) of
              (d', r) \<Rightarrow> (s1\<lparr>directory := d'\<rparr>, r)))"

text \<open>
  \<^verbatim>\<open>Monitor.run\<close>, with \<open>now\<close> the value of \<^verbatim>\<open>date or datetime.datetime.now()\<close> and \<open>c\<close>
  that of \<^verbatim>\<open>_checksum or self._checksum()\<close>.
\<close>

definition run :: "int \<Rightarrow> datetime \<Rightarrow> string \<Rightarrow> state \<Rightarrow> state \<times> (error + unit)" where
  "run frequency now c s0 =
     (let s = ensure_tabasco_directory s0 in
      case should_backup frequency s now c of
        Inl e \<Rightarrow> (s, Inl e)
      | Inr False \<Rightarrow> (s, Inr ())
      | Inr True \<Rightarrow>
          (case backup now c (update_time_and_hash now c s) of
             (s', Inl FileExistsError) \<Rightarrow> (s', Inl RuntimeError)
           | (s', r) \<Rightarrow> (s', r)))"

subsection \<open>Source control\<close>

text \<open>\<^verbatim>\<open>SC.versions\<close>: the records of the shelf, in the order of its keys.\<close>

definition versions :: "state \<Rightarrow> error + version list" where
  "versions s =
     (if \<not> tbsc_is_dir (directory s) then Inl OSError
      else Inr (map snd (versions_db s)))"

text \<open>\<^verbatim>\<open>list.index\<close>: the position of the first occurrence.\<close>

fun index :: "'a list \<Rightarrow> 'a \<Rightarrow> nat option" where
  "index [] x = None"
| "index (y # ys) x = (if y = x then Some 0 else map_option Suc (index ys x))"

text \<open>
  \<^verbatim>\<open>SC._version_by_commit_checksum\<close>. The function returns \<^verbatim>\<open>None\<close> when its last loop
  finds no version.
\<close>

definition version_by_commit_checksum :: "state \<Rightarrow> string \<Rightarrow> error + version option" where
  "version_by_commit_checksum s commit_prefix =
     (case versions s of
        Inl e \<Rightarrow> Inl e
      | Inr vs \<Rightarrow>
          (let checksums = sort (map checksum vs @ [commit_prefix]) in
           case index checksums commit_prefix of
             None \<Rightarrow> Inl ValueError
           | Some i \<Rightarrow>
               if \<not> i + 1 < length checksums then Inl IndexError
               else
                 (let candidate_checksum = checksums ! (i + 1) in
                  if \<not> prefix commit_prefix candidate_checksum then Inl IndexError
                  else
                    (case versions s of
                       Inl e \<Rightarrow> Inl e
                     | Inr vs' \<Rightarrow>
                         Inr (find (\<lambda>v. checksum v = candidate_checksum) vs')))))"

text \<open>
  \<^verbatim>\<open>glob.glob(os.path.join(str(self.directory), '*'))\<close>: the pattern \<^verbatim>\<open>*\<close> matches every
  name that does not start with a dot. The path of the directory itself is taken to hold
  no pattern character.
\<close>

definition ishidden :: "string \<Rightarrow> bool" where
  "ishidden n = (case n of [] \<Rightarrow> False | c # _ \<Rightarrow> c = CHR ''.'')"

definition glob_star :: "(string \<times> node) list \<Rightarrow> string list" where
  "glob_star d = filter (\<lambda>n. \<not> ishidden n) (map fst d)"

definition rmtree :: "string \<Rightarrow> (string \<times> node) list \<Rightarrow> (string \<times> node) list" where
  "rmtree p d = AList.delete p d"

definition os_remove :: "string \<Rightarrow> (string \<times> node) list \<Rightarrow> (string \<times> node) list" where
  "os_remove p d = AList.delete p d"

text \<open>\<^verbatim>\<open>SC._clear_working_directory\<close>\<close>

fun clear_loop :: "string list \<Rightarrow> (string \<times> node) list \<Rightarrow> (string \<times> node) list" where
  "clear_loop [] d = d"
| "clear_loop (p # ps) d =
     clear_loop ps
       (case map_of d p of
          Some (Dir _) \<Rightarrow> rmtree p d
        | Some (File _) \<Rightarrow> os_remove p d
        | None \<Rightarrow> d)"

definition clear_working_directory :: "state \<Rightarrow> state" where
  "clear_working_directory s = s\<lparr>directory := clear_loop (glob_star (directory s)) (directory s)\<rparr>"

text \<open>
  The loop of \<^verbatim>\<open>SC._copy_to_working_directory\<close> over the entries \<open>src\<close> of the version
  directory; \<open>dst\<close> is the working directory.
\<close>

fun copy_loop ::
  "string list \<Rightarrow> (string \<times> node) list \<Rightarrow> node \<Rightarrow> node \<times> (error + unit)" where
  "copy_loop [] src dst = (dst, Inr ())"
| "copy_loop (n # rest) src dst =
     (case map_of src n of
        Some (File bytes) \<Rightarrow>
          (case copy2 n bytes dst of
             Inl e \<Rightarrow> (dst, Inl e)
           | Inr dst' \<Rightarrow> copy_loop rest src dst')
      | Some (Dir sub) \<Rightarrow>
          (case copytree n sub dst of
             Inl e \<Rightarrow> (dst, Inl e)
           | Inr dst' \<Rightarrow> copy_loop rest src dst')
      | None \<Rightarrow> copy_loop rest src dst)"

text \<open>
  \<^verbatim>\<open>SC._copy_to_working_directory\<close>, for the version path \<^verbatim>\<open>.tbsc/<vn>\<close>;
  \<^verbatim>\<open>os.listdir\<close> fails when the path is not a directory. The destination is a
  directory, and \<open>copy2\<close> and \<open>copytree\<close> return a directory for one.
\<close>

definition copy_to_working_directory :: "string \<Rightarrow> state \<Rightarrow> state \<times> (error + unit)" where
  "copy_to_working_directory vn s =
     (case version_directory (directory s) vn of
        Some (Dir src) \<Rightarrow>
          (case copy_loop (map fst src) src (Dir (directory s)) of
             (Dir d', r) \<Rightarrow> (s\<lparr>directory := d'\<rparr>, r)
           | (File _, r) \<Rightarrow> (s, r))
      | _ \<Rightarrow> (s, Inl OSError))"

text \<open>\<^verbatim>\<open>SC.apply\<close>; \<^verbatim>\<open>version.name\<close> of \<^verbatim>\<open>None\<close> raises \<^verbatim>\<open>AttributeError\<close>.\<close>

definition SC_apply :: "string \<Rightarrow> state \<Rightarrow> state \<times> (error + unit)" where
  "SC_apply commit_prefix s =
     (case version_by_commit_checksum s commit_prefix of
        Inl e \<Rightarrow> (s, Inl e)
      | Inr None \<Rightarrow> (s, Inl AttributeError)
      | Inr (Some v) \<Rightarrow> copy_to_working_directory (name v) (clear_working_directory s))"

text \<open>
  The loop of \<^verbatim>\<open>SC.remove\<close> over the keys of the shelf, which the shelf lists before the
  first deletion.
\<close>

fun remove_loop ::
  "string list \<Rightarrow> version option \<Rightarrow> (string \<times> version) list \<Rightarrow>
     (string \<times> version) list \<times> (error + unit)" where
  "remove_loop [] v db = (db, Inr ())"
| "remove_loop (key # keys) v db =
     (case map_of db key of
        None \<Rightarrow> (db, Inl KeyError)
      | Some r \<Rightarrow>
          (case v of
             None \<Rightarrow> (db, Inl AttributeError)
           | Some v' \<Rightarrow>
               if checksum r = checksum v'
               then remove_loop keys v (AList.delete key db)
               else remove_loop keys v db))"

text \<open>\<^verbatim>\<open>SC.remove\<close>\<close>

definition SC_remove :: "string \<Rightarrow> state \<Rightarrow> state \<times> (error + unit)" where
  "SC_remove commit_prefix s =
     (case version_by_commit_checksum s commit_prefix of
        Inl e \<Rightarrow> (s, Inl e)
      | Inr v \<Rightarrow>
          (case remove_loop (map fst (versions_db s)) v (versions_db s) of
             (db', r) \<Rightarrow> (s\<lparr>versions_db := db'\<rparr>, r)))"

subsection \<open>Observing a snapshot copy\<close>

text \<open>The entry \<open>n\<close> of a directory node, and of the snapshot copy \<^verbatim>\<open>.tbsc/<vn>\<close>.\<close>

definition entry_of :: "node \<Rightarrow> string \<Rightarrow> node option" where
  "entry_of nd n = (case nd of Dir entries \<Rightarrow> map_of entries n | File _ \<Rightarrow> None)"

definition snapshot_entry :: "(string \<times> node) list \<Rightarrow> string \<Rightarrow> string \<Rightarrow> node option" where
  "snapshot_entry d vn n =
     (case version_directory d vn of Some nd \<Rightarrow> entry_of nd n | None \<Rightarrow> None)"

subsection \<open>Example states\<close>

text \<open>
  The scenarios of \<^verbatim>\<open>tests.py\<close>: a tree with one file \<^verbatim>\<open>FILE\<close>, committed with the
  checksum \<^verbatim>\<open>Hello\<close>, and four seconds later with the checksum \<^verbatim>\<open>Hello2\<close>.
\<close>

definition d_noon :: datetime where
  "d_noon = \<lparr>year = 2024, month = 3, day = 1, hour = 12, minute = 0, second = 5,
             microsecond = 0\<rparr>"

definition d_half :: datetime where
  "d_half = d_noon\<lparr>microsecond := 500000\<rparr>"

definition d_later :: datetime where
  "d_later = d_noon\<lparr>second := 9\<rparr>"

definition d_301 :: datetime where
  "d_301 = d_noon\<lparr>minute := 5, second := 6\<rparr>"

definition s_fresh :: state where
  "s_fresh = \<lparr>directory = [(''FILE'', File ''x'')], versions_db = [],
     last_db = \<lparr>last_checksum = None, last_time = None, last_name = None\<rparr>\<rparr>"

definition s_hello :: state where
  "s_hello = fst (run 1 d_noon ''Hello'' s_fresh)"

definition s_hello2 :: state where
  "s_hello2 = fst (run 1 d_later ''Hello2'' s_hello)"

definition v_hello :: version where
  "v_hello = \<lparr>checksum = ''Hello'', time = d_noon, name = ''2024.03.01 - 12.00.05''\<rparr>"

text \<open>
  After the first commit the user deletes \<^verbatim>\<open>FILE\<close> and creates \<^verbatim>\<open>.env\<close> and \<^verbatim>\<open>BADFILE\<close>.
\<close>

definition s_dotfile :: state where
  "s_dotfile = s_hello\<lparr>directory :=
      filter (\<lambda>(n, _). n \<noteq> ''FILE'') (directory s_hello)
        @ [(''.env'', File ''e''), (''BADFILE'', File ''b'')]\<rparr>"

text \<open>
  A tree with a directory \<^verbatim>\<open>d\<close> whose snapshot of this very second already holds \<^verbatim>\<open>d\<close>.
\<close>

definition s_fail :: state where
  "s_fail = \<lparr>directory =
       [(''d'', Dir []), (''.tbsc'', Dir [(''2024.03.01 - 12.00.05'', Dir [(''d'', Dir [])])])],
     versions_db = [],
     last_db = \<lparr>last_checksum = Some ''Hello'', last_time = Some d_noon,
                 last_name = Some ''2024.03.01 - 12.00.05''\<rparr>\<rparr>"

text \<open>A version log in which two records share the checksum \<^verbatim>\<open>Hello\<close>.\<close>

definition s_dup :: state where
  "s_dup = \<lparr>directory = [(''.tbsc'', Dir [])],
     versions_db =
       [(''2024.03.01 - 12.00.05'', v_hello),
        (''2024.03.01 - 12.00.09'',
           \<lparr>checksum = ''Hello2'', time = d_later, name = ''2024.03.01 - 12.00.09''\<rparr>),
        (''2024.03.01 - 12.05.06'',
           \<lparr>checksum = ''Hello'', time = d_301, name = ''2024.03.01 - 12.05.06''\<rparr>)],
     last_db = \<lparr>last_checksum = Some ''Hello'', last_time = Some d_301,
                 last_name = Some ''2024.03.01 - 12.05.06''\<rparr>\<rparr>"

definition d_notes :: "(string \<times> node) list" where
  "d_notes = [(''notes.tbsc.txt'', File ''n''), (''a.txt'', File ''a'')]"

section \<open>Properties\<close>

subsection \<open>The change detector\<close>

lemma ensure_tabasco_directory_id:
  "tbsc_is_dir (directory s) \<Longrightarrow> ensure_tabasco_directory s = s"
  by (auto simp: ensure_tabasco_directory_def tbsc_is_dir_def split: option.splits)

lemma last_db_ensure: "last_db (ensure_tabasco_directory s) = last_db s"
  by (simp add: ensure_tabasco_directory_def split: option.splits)

lemma last_db_backup: "last_db (fst (backup now c s)) = last_db s"
  by (simp add: backup_def Let_def split: prod.splits)

lemma versions_db_backup:
  "tbsc_is_dir (directory s) \<Longrightarrow>
   versions_db (fst (backup now c s)) =
     AList.update (version_name now)
       \<lparr>checksum = c, time = now, name = version_name now\<rparr> (versions_db s)"
  by (simp add: backup_def Let_def split: prod.splits)

lemma fst_run_commit:
  assumes "should_backup frequency (ensure_tabasco_directory s) now c = Inr True"
  shows "fst (run frequency now c s) =
           fst (backup now c (update_time_and_hash now c (ensure_tabasco_directory s)))"
  using assms by (auto simp: run_def split: prod.splits sum.splits error.splits)



text \<open>
  C7. With no last-commit state (neither a checksum nor a time recorded) the decision is
  true for every time and every checksum, and \<^verbatim>\<open>run\<close> then records the version.
\<close>

theorem should_backup_first_run:
  assumes "tbsc_is_dir (directory s)"
    and "last_checksum (last_db s) = None"
    and "last_time (last_db s) = None"
  shows "should_backup frequency s now c = Inr True
       \<and> map_of (versions_db (fst (run frequency now c s))) (version_name now) =
           Some \<lparr>checksum = c, time = now, name = version_name now\<rparr>"
proof -
  have d: "should_backup frequency s now c = Inr True"
    using assms by (simp add: should_backup_def)
  have e: "ensure_tabasco_directory s = s"
    using assms(1) by (rule ensure_tabasco_directory_id)
  have "tbsc_is_dir (directory (update_time_and_hash now c s))"
    using assms(1) by (simp add: update_time_and_hash_def)
  then have "versions_db (fst (run frequency now c s)) =
      AList.update (version_name now) \<lparr>checksum = c, time = now, name = version_name now\<rparr>
        (versions_db (update_time_and_hash now c s))"
    using fst_run_commit [of frequency s now c] d e by (simp add: versions_db_backup)
  with d show ?thesis by (simp add: update_conv')
qed

theorem should_backup_first_run_witness:
  "tbsc_is_dir (directory (ensure_tabasco_directory s_fresh))
   \<and> last_checksum (last_db (ensure_tabasco_directory s_fresh)) = None
   \<and> last_time (last_db (ensure_tabasco_directory s_fresh)) = None
   \<and> should_backup 300 (ensure_tabasco_directory s_fresh) d_noon ''Hello'' = Inr True"
proof -
  have h1: "tbsc_is_dir (directory (ensure_tabasco_directory s_fresh))" by code_simp
  have h2: "last_checksum (last_db (ensure_tabasco_directory s_fresh)) = None" by code_simp
  have h3: "last_time (last_db (ensure_tabasco_directory s_fresh)) = None" by code_simp
  from should_backup_first_run [OF h1 h2 h3, of 300 d_noon "''Hello''"] h1 h2 h3
  show ?thesis by simp
qed

text \<open>
  C4. \<^verbatim>\<open>run\<close> changes the last-commit state only when the decision is to commit, never on
  a check that declines or fails; and when the decision is to commit, the state left by
  \<^verbatim>\<open>run\<close> records the new checksum and time whatever the copy does afterwards, also when
  the copy raises.
\<close>

theorem run_updates_last_before_copy:
  "last_db (fst (run frequency now c s)) =
     (if should_backup frequency (ensure_tabasco_directory s) now c = Inr True
      then \<lparr>last_checksum = Some c, last_time = Some now,
             last_name = Some (version_name now)\<rparr>
      else last_db s)"
proof (cases "should_backup frequency (ensure_tabasco_directory s) now c")
  case (Inl err)
  then show ?thesis by (simp add: run_def last_db_ensure)
next
  case (Inr b)
  show ?thesis
  proof (cases b)
    case False
    with Inr show ?thesis by (simp add: run_def last_db_ensure)
  next
    case True
    with Inr have "fst (run frequency now c s) =
        fst (backup now c (update_time_and_hash now c (ensure_tabasco_directory s)))"
      by (simp add: fst_run_commit)
    with Inr True show ?thesis
      by (simp add: last_db_backup update_time_and_hash_def)
  qed
qed

theorem run_updates_last_before_copy_witness:
  "should_backup 0 (ensure_tabasco_directory s_fail) d_noon ''World'' = Inr True
   \<and> snd (run 0 d_noon ''World'' s_fail) = Inl RuntimeError
   \<and> last_db (fst (run 0 d_noon ''World'' s_fail)) =
       \<lparr>last_checksum = Some ''World'', last_time = Some d_noon,
         last_name = Some (version_name d_noon)\<rparr>
   \<and> should_backup 300 (ensure_tabasco_directory s_fail) d_later ''World'' = Inr False
   \<and> last_db (fst (run 300 d_later ''World'' s_fail)) = last_db s_fail"
proof -
  have h1: "should_backup 0 (ensure_tabasco_directory s_fail) d_noon ''World'' = Inr True"
    by code_simp
  have h2: "snd (run 0 d_noon ''World'' s_fail) = Inl RuntimeError"
    by code_simp
  have h3: "should_backup 300 (ensure_tabasco_directory s_fail) d_later ''World'' = Inr False"
    by code_simp
  from run_updates_last_before_copy [of 0 d_noon "''World''" s_fail]
    run_updates_last_before_copy [of 300 d_later "''World''" s_fail] h1 h2 h3
  show ?thesis by simp
qed

subsection \<open>The snapshot store\<close>

text \<open>
  C5. Two commits in the same second, on a tree with a single file and the frequency 0:
  the second one returns normally and the record stored under the shared version name now
  holds the second checksum. No error is raised and the first record is gone.
\<close>

theorem run_same_second_overwrites:
  "snd (run 0 d_noon ''Hello'' s_fresh) = Inr ()
   \<and> versions_db (fst (run 0 d_noon ''Hello'' s_fresh)) =
       [(''2024.03.01 - 12.00.05'',
         \<lparr>checksum = ''Hello'', time = d_noon, name = ''2024.03.01 - 12.00.05''\<rparr>)]
   \<and> version_name d_half = version_name d_noon
   \<and> snd (run 0 d_half ''World'' (fst (run 0 d_noon ''Hello'' s_fresh))) = Inr ()
   \<and> versions_db (fst (run 0 d_half ''World'' (fst (run 0 d_noon ''Hello'' s_fresh)))) =
       [(''2024.03.01 - 12.00.05'',
         \<lparr>checksum = ''World'', time = d_half, name = ''2024.03.01 - 12.00.05''\<rparr>)]"
  by code_simp

subsection \<open>The resolver\<close>

lemma prefix_le: "prefix p c \<Longrightarrow> p \<le> c" for p :: "'a::linorder list"
proof (induction p arbitrary: c)
  case Nil
  then show ?case by simp
next
  case (Cons a p)
  then obtain c' where "c = a # c'" "prefix p c'"
    by (cases c) auto
  with Cons.IH show ?case by simp
qed

lemma prefix_between:
  "prefix p c \<Longrightarrow> p \<le> m \<Longrightarrow> m \<le> c \<Longrightarrow> prefix p m" for p :: "'a::linorder list"
proof (induction p arbitrary: c m)
  case Nil
  then show ?case by simp
next
  case (Cons a p)
  from Cons.prems(1) obtain c' where c: "c = a # c'" "prefix p c'"
    by (cases c) auto
  from Cons.prems(2) obtain b m' where m: "m = b # m'"
    by (cases m) auto
  from Cons.prems(2) m have 1: "a < b \<or> a = b \<and> p \<le> m'" by simp
  from Cons.prems(3) m c have 2: "b < a \<or> b = a \<and> m' \<le> c'" by simp
  from 1 2 have "a = b" "p \<le> m'" "m' \<le> c'" by auto
  with Cons.IH [OF c(2)] m show ?case by simp
qed

lemma sort_snoc: "sort (cs @ [p]) = insort p (sort cs)"
  by (rule properties_for_sort) (simp_all add: sorted_insort)

lemma index_insort:
  assumes "sorted ys"
  shows "\<exists>i. index (insort p ys) p = Some i \<and>
             drop (Suc i) (insort p ys) = filter (\<lambda>y. p \<le> y) ys"
  using assms
proof (induction ys)
  case Nil
  then show ?case by simp
next
  case (Cons y ys)
  show ?case
  proof (cases "p \<le> y")
    case True
    with Cons.prems have "\<forall>z \<in> set ys. p \<le> z" by auto
    with True show ?thesis by simp
  next
    case False
    from Cons have "\<exists>i. index (insort p ys) p = Some i \<and>
             drop (Suc i) (insort p ys) = filter (\<lambda>y. p \<le> y) ys" by simp
    then obtain i where "index (insort p ys) p = Some i"
      "drop (Suc i) (insort p ys) = filter (\<lambda>y. p \<le> y) ys" by blast
    with False show ?thesis by auto
  qed
qed

lemma sorted_hd_le: "sorted xs \<Longrightarrow> x \<in> set xs \<Longrightarrow> hd xs \<le> x" for xs :: "'a::linorder list"
  by (cases xs) auto

text \<open>What the sort-and-index part of the resolver computes.\<close>

lemma candidate_checksum:
  fixes cs :: "string list"
  shows "\<exists>i. index (sort (cs @ [p])) p = Some i \<and>
      (if \<exists>c \<in> set cs. prefix p c
       then i + 1 < length (sort (cs @ [p]))
              \<and> sort (cs @ [p]) ! (i + 1) = Min {c \<in> set cs. prefix p c}
              \<and> prefix p (sort (cs @ [p]) ! (i + 1))
       else \<not> (i + 1 < length (sort (cs @ [p])) \<and> prefix p (sort (cs @ [p]) ! (i + 1))))"
proof -
  let ?cands = "filter (\<lambda>y. p \<le> y) (sort cs)"
  define xs where "xs = sort (cs @ [p])"
  have xs: "xs = insort p (sort cs)" by (simp add: xs_def sort_snoc)
  obtain i where i: "index xs p = Some i" and d: "drop (Suc i) xs = ?cands"
    using index_insort [of "sort cs" p] unfolding xs by auto
  have sc: "sorted ?cands" by (simp add: sorted_wrt_filter)
  have len: "Suc i < length xs \<longleftrightarrow> ?cands \<noteq> []"
    using d by (metis drop_eq_Nil not_less)
  have nth: "xs ! Suc i = hd ?cands" if "Suc i < length xs"
    using that d by (metis hd_drop_conv_nth)
  have least: "hd ?cands \<le> c" if "c \<in> set cs" "p \<le> c" for c
    using sc that by (intro sorted_hd_le) auto
  have mem: "hd ?cands \<in> set cs \<and> p \<le> hd ?cands" if "?cands \<noteq> []"
    using hd_in_set [OF that] by auto
  show ?thesis
  proof (cases "\<exists>c \<in> set cs. prefix p c")
    case True
    then obtain c where c: "c \<in> set cs" "prefix p c" by blast
    then have ne: "?cands \<noteq> []" using prefix_le [OF c(2)] by (auto simp: filter_empty_conv)
    have pm: "prefix p (hd ?cands)"
      using prefix_between [OF c(2)] mem [OF ne] least [OF c(1) prefix_le [OF c(2)]] by blast
    have "Min {c \<in> set cs. prefix p c} = hd ?cands"
    proof (rule Min_eqI)
      show "finite {c \<in> set cs. prefix p c}" by simp
      show "hd ?cands \<le> y" if "y \<in> {c \<in> set cs. prefix p c}" for y
        using that least prefix_le by blast
      show "hd ?cands \<in> {c \<in> set cs. prefix p c}" using mem [OF ne] pm by simp
    qed
    with True i len nth ne pm show ?thesis unfolding xs_def [symmetric] by auto
  next
    case False
    have "\<not> prefix p (xs ! (i + 1))" if "i + 1 < length xs"
    proof -
      from that len have ne: "?cands \<noteq> []" by simp
      from that nth have "xs ! (i + 1) = hd ?cands" by simp
      with mem [OF ne] False show ?thesis by auto
    qed
    with False i show ?thesis unfolding xs_def [symmetric] by auto
  qed
qed

lemma version_by_commit_checksum_eq:
  assumes "tbsc_is_dir (directory s)"
  shows "version_by_commit_checksum s p =
     (if \<exists>v \<in> set (map snd (versions_db s)). prefix p (checksum v)
      then Inr (find (\<lambda>v. checksum v =
                    Min {c \<in> set (map checksum (map snd (versions_db s))). prefix p c})
                  (map snd (versions_db s)))
      else Inl IndexError)"
proof -
  let ?vs = "map snd (versions_db s)"
  let ?cs = "map checksum ?vs"
  have ex: "(\<exists>v \<in> set ?vs. prefix p (checksum v)) \<longleftrightarrow> (\<exists>c \<in> set ?cs. prefix p c)"
    by auto
  show ?thesis
  proof (cases "\<exists>c \<in> set ?cs. prefix p c")
    case True
    with candidate_checksum [of ?cs p] obtain i
      where "index (sort (?cs @ [p])) p = Some i"
        and "i + 1 < length (sort (?cs @ [p]))"
        and b: "sort (?cs @ [p]) ! (i + 1) = Min {c \<in> set ?cs. prefix p c}"
        and pr: "prefix p (sort (?cs @ [p]) ! (i + 1))"
      by (auto simp del: set_map map_map)
    moreover from pr have "prefix p (Min {c \<in> set ?cs. prefix p c})"
      unfolding b .
    ultimately show ?thesis
      using True assms unfolding ex
      by (simp add: version_by_commit_checksum_def versions_def Let_def)
  next
    case False
    with candidate_checksum [of ?cs p] obtain i
      where "index (sort (?cs @ [p])) p = Some i"
        and "\<not> (i + 1 < length (sort (?cs @ [p])) \<and> prefix p (sort (?cs @ [p]) ! (i + 1)))"
      by (auto simp del: set_map map_map)
    then show ?thesis
      using False assms unfolding ex
      by (auto simp add: version_by_commit_checksum_def versions_def Let_def)
  qed
qed

lemma find_neq_None: "x \<in> set xs \<Longrightarrow> P x \<Longrightarrow> find P xs \<noteq> None"
  by (auto simp: find_None_iff)

text \<open>
  C1. The resolver succeeds exactly when some stored checksum starts with the prefix. It
  then returns the first version, in the order of the log, whose checksum is the least
  stored checksum having the prefix as a prefix; when the prefix is itself a stored
  checksum, that checksum is the one returned. When no stored checksum starts with the
  prefix it raises \<^verbatim>\<open>IndexError\<close>.
\<close>

theorem resolve_smallest_match:
  assumes "tbsc_is_dir (directory s)"
  shows "if \<exists>w \<in> set (map snd (versions_db s)). prefix p (checksum w)
     then \<exists>v. version_by_commit_checksum s p = Inr (Some v)
            \<and> find (\<lambda>w. checksum w = checksum v) (map snd (versions_db s)) = Some v
            \<and> prefix p (checksum v)
            \<and> (\<forall>w \<in> set (map snd (versions_db s)).
                  prefix p (checksum w) \<longrightarrow> checksum v \<le> checksum w)
            \<and> (\<forall>w \<in> set (map snd (versions_db s)). checksum w = p \<longrightarrow> checksum v = p)
     else version_by_commit_checksum s p = Inl IndexError"
proof (cases "\<exists>w \<in> set (map snd (versions_db s)). prefix p (checksum w)")
  case False
  with version_by_commit_checksum_eq [OF assms, of p] show ?thesis by simp
next
  case True
  let ?vs = "map snd (versions_db s)"
  let ?M = "{c \<in> set (map checksum ?vs). prefix p c}"
  let ?m = "Min ?M"
  have fin: "finite ?M" by simp
  from True have ne: "?M \<noteq> {}" by auto
  from Min_in [OF fin ne] have m: "?m \<in> set (map checksum ?vs)" "prefix p ?m"
    by blast+
  from m(1) have "?m \<in> checksum ` set ?vs" by (simp only: set_map)
  then obtain w0 where w0: "w0 \<in> set ?vs" "?m = checksum w0" by (rule imageE)
  have "find (\<lambda>w. checksum w = ?m) ?vs \<noteq> None"
    by (rule find_neq_None [OF w0(1)]) (simp only: w0(2) [symmetric])
  then obtain v where v: "find (\<lambda>w. checksum w = ?m) ?vs = Some v" by blast
  then have cv: "checksum v = ?m" by (auto simp: find_Some_iff)
  have least: "checksum v \<le> checksum w" if "w \<in> set ?vs" "prefix p (checksum w)" for w
    unfolding cv using that by (intro Min_le [OF fin]) auto
  have exact: "checksum v = p" if "w \<in> set ?vs" "checksum w = p" for w
  proof -
    from least [OF that(1)] that(2) have "checksum v \<le> p" by simp
    moreover from m(2) cv have "p \<le> checksum v" by (simp add: prefix_le)
    ultimately show ?thesis by simp
  qed
  from version_by_commit_checksum_eq [OF assms, of p] True v
  have "version_by_commit_checksum s p = Inr (Some v)" by simp
  moreover from v cv have "find (\<lambda>w. checksum w = checksum v) ?vs = Some v" by simp
  moreover from m(2) cv have "prefix p (checksum v)" by simp
  ultimately show ?thesis using True least exact by auto
qed

theorem resolve_smallest_match_witness:
  "tbsc_is_dir (directory s_hello2)
   \<and> (\<exists>w \<in> set (map snd (versions_db s_hello2)). prefix ''H'' (checksum w))
   \<and> (\<exists>v. version_by_commit_checksum s_hello2 ''H'' = Inr (Some v) \<and> prefix ''H'' (checksum v))
   \<and> version_by_commit_checksum s_hello2 ''H'' = Inr (Some v_hello)
   \<and> \<not> (\<exists>w \<in> set (map snd (versions_db s_hello2)). prefix ''A'' (checksum w))
   \<and> version_by_commit_checksum s_hello2 ''A'' = Inl IndexError"
proof -
  have h: "tbsc_is_dir (directory s_hello2)" by code_simp
  have c: "\<exists>w \<in> set (map snd (versions_db s_hello2)). prefix ''H'' (checksum w)"
    by code_simp
  have n: "\<not> (\<exists>w \<in> set (map snd (versions_db s_hello2)). prefix ''A'' (checksum w))"
    by code_simp
  have r: "version_by_commit_checksum s_hello2 ''H'' = Inr (Some v_hello)"
    by code_simp
  from resolve_smallest_match [OF h, of "''H''"] c
  have 1: "\<exists>v. version_by_commit_checksum s_hello2 ''H'' = Inr (Some v)
              \<and> prefix ''H'' (checksum v)"
    by (simp only: if_True) blast
  from resolve_smallest_match [OF h, of "''A''"] n
  have 2: "version_by_commit_checksum s_hello2 ''A'' = Inl IndexError"
    by (simp only: if_False)
  from h c n r 1 2 show ?thesis by blast
qed

subsection \<open>Remove\<close>

lemma remove_loop_filter:
  assumes "distinct keys" and "set keys \<subseteq> fst ` set db" and "distinct (map fst db)"
  shows "remove_loop keys (Some v) db =
           (filter (\<lambda>(k, r). \<not> (k \<in> set keys \<and> checksum r = checksum v)) db, Inr ())"
  using assms
proof (induction keys arbitrary: db)
  case Nil
  then show ?case by simp
next
  case (Cons key keys)
  from Cons.prems obtain r where r: "(key, r) \<in> set db" by auto
  with Cons.prems have m: "map_of db key = Some r" by simp
  have uniq: "r' = r" if "(key, r') \<in> set db" for r'
    using that r Cons.prems(3) by (meson eq_key_imp_eq_value)
  show ?case
  proof (cases "checksum r = checksum v")
    case True
    let ?db = "AList.delete key db"
    have 1: "set keys \<subseteq> fst ` set ?db"
      using Cons.prems by (force simp: AList.delete_eq)
    have 2: "distinct (map fst ?db)"
      using Cons.prems by (simp add: AList.distinct_delete)
    have "filter (\<lambda>(k, r). \<not> (k \<in> set keys \<and> checksum r = checksum v)) ?db =
          filter (\<lambda>(k, r). \<not> (k \<in> set (key # keys) \<and> checksum r = checksum v)) db"
      unfolding AList.delete_eq filter_filter
      by (rule filter_cong) (use True uniq in auto)
    with Cons.IH [OF _ 1 2] Cons.prems(1) m True show ?thesis by simp
  next
    case False
    have 1: "set keys \<subseteq> fst ` set db" using Cons.prems by simp
    have "filter (\<lambda>(k, r). \<not> (k \<in> set keys \<and> checksum r = checksum v)) db =
          filter (\<lambda>(k, r). \<not> (k \<in> set (key # keys) \<and> checksum r = checksum v)) db"
      by (rule filter_cong) (use False uniq in auto)
    with Cons.IH [OF _ 1 Cons.prems(3)] Cons.prems(1) m False show ?thesis by simp
  qed
qed

text \<open>
  C6. When the prefix resolves to a version \<open>v\<close> of a log with distinct keys, \<^verbatim>\<open>remove\<close>
  returns normally and leaves exactly the records whose checksum differs from that of
  \<open>v\<close>: every record with that checksum is deleted, and the versions listed afterwards do
  not hold it.
\<close>

theorem remove_deletes_every_record:
  assumes "tbsc_is_dir (directory s)"
    and "distinct (map fst (versions_db s))"
    and "version_by_commit_checksum s p = Inr (Some v)"
  shows "snd (SC_remove p s) = Inr ()
       \<and> versions_db (fst (SC_remove p s)) =
           filter (\<lambda>(k, r). checksum r \<noteq> checksum v) (versions_db s)
       \<and> (\<exists>vs. versions (fst (SC_remove p s)) = Inr vs \<and> checksum v \<notin> checksum ` set vs)"
proof -
  have "remove_loop (map fst (versions_db s)) (Some v) (versions_db s) =
          (filter (\<lambda>(k, r). \<not> (k \<in> set (map fst (versions_db s)) \<and> checksum r = checksum v))
             (versions_db s), Inr ())"
    using assms(2) by (intro remove_loop_filter) auto
  moreover have "filter (\<lambda>(k, r). \<not> (k \<in> set (map fst (versions_db s)) \<and> checksum r = checksum v))
             (versions_db s) = filter (\<lambda>(k, r). checksum r \<noteq> checksum v) (versions_db s)"
    by (rule filter_cong) force+
  ultimately show ?thesis
    using assms(1,3) by (auto simp: SC_remove_def versions_def)
qed

theorem remove_deletes_every_record_witness:
  "tbsc_is_dir (directory s_dup)
   \<and> distinct (map fst (versions_db s_dup))
   \<and> version_by_commit_checksum s_dup ''H'' = Inr (Some v_hello)
   \<and> map (checksum \<circ> snd) (versions_db s_dup) = [''Hello'', ''Hello2'', ''Hello'']
   \<and> snd (SC_remove ''H'' s_dup) = Inr ()
   \<and> map (checksum \<circ> snd) (versions_db (fst (SC_remove ''H'' s_dup))) = [''Hello2'']"
proof -
  have h1: "tbsc_is_dir (directory s_dup)" by code_simp
  have h2: "distinct (map fst (versions_db s_dup))" by code_simp
  have h3: "version_by_commit_checksum s_dup ''H'' = Inr (Some v_hello)" by code_simp
  have b: "map (checksum \<circ> snd) (versions_db s_dup) = [''Hello'', ''Hello2'', ''Hello'']"
    by code_simp
  have a: "map (checksum \<circ> snd)
             (filter (\<lambda>(k, r). checksum r \<noteq> checksum v_hello) (versions_db s_dup)) = [''Hello2'']"
    by code_simp
  from remove_deletes_every_record [OF h1 h2 h3] a b h1 h2 h3
  show ?thesis by simp
qed

text \<open>
  C8. \<^verbatim>\<open>remove\<close> changes the version log only: whatever the prefix, the working tree, the
  last-commit state and every snapshot directory \<^verbatim>\<open>.tbsc/<vn>\<close> are after it what they
  were before, the snapshot directories of the removed records included.
\<close>

theorem remove_frame:
  "directory (fst (SC_remove p s)) = directory s \<and> last_db (fst (SC_remove p s)) = last_db s
   \<and> version_directory (directory (fst (SC_remove p s))) vn = version_directory (directory s) vn"
  by (simp add: SC_remove_def split: sum.splits prod.splits)

theorem remove_frame_witness:
  "map (checksum \<circ> snd) (versions_db (fst (SC_remove ''Hello2'' s_hello2))) = [''Hello'']
   \<and> directory (fst (SC_remove ''Hello2'' s_hello2)) = directory s_hello2
   \<and> version_directory (directory (fst (SC_remove ''Hello2'' s_hello2))) ''2024.03.01 - 12.00.09''
       = Some (Dir [(''FILE'', File ''x'')])"
proof -
  have a: "map (checksum \<circ> snd) (versions_db (fst (SC_remove ''Hello2'' s_hello2))) = [''Hello'']"
    by code_simp
  have b: "version_directory (directory s_hello2) ''2024.03.01 - 12.00.09''
             = Some (Dir [(''FILE'', File ''x'')])"
    by code_simp
  from remove_frame [of "''Hello2''" s_hello2 "''2024.03.01 - 12.00.09''"] a b
  show ?thesis by simp
qed

subsection \<open>The copy of a commit\<close>

lemma entry_of_copy2:
  "copy2 filename bytes dst = Inr dst' \<Longrightarrow> n \<noteq> filename \<Longrightarrow> entry_of dst' n = entry_of dst n"
  by (auto simp: copy2_def entry_of_def update_conv' split: node.splits option.splits)

lemma entry_of_copytree:
  "copytree filename sub dst = Inr dst' \<Longrightarrow> n \<noteq> filename \<Longrightarrow> entry_of dst' n = entry_of dst n"
  by (auto simp: copytree_def entry_of_def update_conv' split: node.splits option.splits)

lemma entry_of_commit_loop:
  "sublist tbsc n \<Longrightarrow> entry_of (fst (commit_loop names d dst)) n = entry_of dst n"
proof (induction names arbitrary: dst)
  case Nil
  then show ?case by simp
next
  case (Cons filename rest)
  show ?case
  proof (cases "sublist tbsc filename")
    case True
    with Cons show ?thesis by simp
  next
    case False
    with Cons.prems have ne: "n \<noteq> filename" by auto
    from False Cons.IH [OF Cons.prems] ne show ?thesis
      by (auto simp: entry_of_copy2 entry_of_copytree split: option.splits node.splits sum.splits)
  qed
qed

lemma version_directory_put:
  "tbsc_is_dir d \<Longrightarrow> version_directory (put_version_directory vn nd d) vn = Some nd"
  by (auto simp: tbsc_is_dir_def version_directory_def put_version_directory_def update_conv'
      split: option.splits node.splits)

lemma version_directory_tbsc_is_dir: "version_directory d vn = Some nd \<Longrightarrow> tbsc_is_dir d"
  by (auto simp: tbsc_is_dir_def version_directory_def split: option.splits node.splits)

lemma mkdir_version_directory_cases:
  assumes "mkdir_version_directory vn d = Inr d1"
  shows "tbsc_is_dir d1 \<and>
         (if version_directory d vn = None then version_directory d1 vn = Some (Dir [])
          else version_directory d1 vn = version_directory d vn)"
  using assms
  by (auto simp: mkdir_version_directory_def version_directory_put version_directory_tbsc_is_dir
        tbsc_is_dir_def version_directory_def put_version_directory_def update_conv'
        map_add_def
      split: if_splits option.splits node.splits)

text \<open>
  C9. The copy of a commit skips every top-level entry whose name contains \<^verbatim>\<open>.tbsc\<close>
  anywhere: under such a name the snapshot copy holds after the commit what it held
  before, so nothing when the version directory is new.
\<close>

theorem commit_skips_tbsc_names:
  assumes "sublist tbsc n"
  shows "snapshot_entry (fst (commit vn d)) vn n = snapshot_entry d vn n
       \<and> (version_directory d vn = None \<longrightarrow> snapshot_entry (fst (commit vn d)) vn n = None)"
proof -
  have "snapshot_entry (fst (commit vn d)) vn n = snapshot_entry d vn n"
  proof (cases "mkdir_version_directory vn d")
    case (Inl e)
    then show ?thesis by (simp add: commit_def)
  next
    case (Inr d1)
    note m = mkdir_version_directory_cases [OF Inr]
    then obtain dst where dst: "version_directory d1 vn = Some dst"
      by (auto split: if_splits)
    have e: "entry_of dst n = snapshot_entry d vn n"
      using m dst by (auto simp: snapshot_entry_def entry_of_def split: if_splits)
    obtain dst' r where l: "commit_loop (map fst d1) d1 dst = (dst', r)"
      by (cases "commit_loop (map fst d1) d1 dst")
    have "entry_of dst' n = entry_of dst n"
      using entry_of_commit_loop [OF assms, of "map fst d1" d1 dst] l by simp
    with Inr dst l e m show ?thesis
      by (simp add: commit_def snapshot_entry_def version_directory_put)
  qed
  then show ?thesis by (auto simp: snapshot_entry_def)
qed

theorem commit_skips_tbsc_names_witness:
  "sublist tbsc ''notes.tbsc.txt''
   \<and> version_directory d_notes ''v1'' = None
   \<and> snd (commit ''v1'' d_notes) = Inr ()
   \<and> snapshot_entry (fst (commit ''v1'' d_notes)) ''v1'' ''notes.tbsc.txt'' = None
   \<and> snapshot_entry (fst (commit ''v1'' d_notes)) ''v1'' ''a.txt'' = Some (File ''a'')"
proof -
  have h1: "sublist tbsc ''notes.tbsc.txt''" by code_simp
  have h2: "version_directory d_notes ''v1'' = None" by code_simp
  have a: "snd (commit ''v1'' d_notes) = Inr ()" by code_simp
  have b: "snapshot_entry (fst (commit ''v1'' d_notes)) ''v1'' ''a.txt'' = Some (File ''a'')"
    by code_simp
  from commit_skips_tbsc_names [OF h1, of "''v1''" d_notes] h2
  have c: "snapshot_entry (fst (commit ''v1'' d_notes)) ''v1'' ''notes.tbsc.txt'' = None"
    by blast
  from h1 h2 a b c show ?thesis by blast
qed

subsection \<open>Apply\<close>

text \<open>
  C10. When no stored checksum starts with the prefix, \<^verbatim>\<open>apply\<close> raises the error of
  the resolver and the state, the working directory in particular, is unchanged.
\<close>

theorem apply_unresolved:
  assumes "tbsc_is_dir (directory s)"
    and "\<not> (\<exists>v \<in> set (map snd (versions_db s)). prefix p (checksum v))"
  shows "SC_apply p s = (s, Inl IndexError)"
  using assms by (simp add: SC_apply_def version_by_commit_checksum_eq)

theorem apply_unresolved_witness:
  "tbsc_is_dir (directory s_dotfile)
   \<and> \<not> (\<exists>v \<in> set (map snd (versions_db s_dotfile)). prefix ''A'' (checksum v))
   \<and> SC_apply ''A'' s_dotfile = (s_dotfile, Inl IndexError)"
proof -
  have h1: "tbsc_is_dir (directory s_dotfile)" by code_simp
  have h2: "\<not> (\<exists>v \<in> set (map snd (versions_db s_dotfile)). prefix ''A'' (checksum v))"
    by code_simp
  from apply_unresolved [OF h1 h2] h1 h2 show ?thesis by simp
qed












end
